theory Spec2Isabelle
  imports Complex_Main "HOL-Library.Log_Nat"
begin

section \<open>Data model\<close>

text \<open>
  The exceptions the modelled code can raise. \<open>ZeroDivisionError\<close> comes from
  \<^verbatim>\<open>height // stripe_count\<close>; \<open>OverflowError\<close> from converting an integer beyond the
  range of a float, and from \<^verbatim>\<open>int\<close> of an infinity; \<open>ValueError\<close> from \<^verbatim>\<open>int\<close> of a
  NaN and from \<^verbatim>\<open>Image.crop\<close> when a box is turned inside out; \<open>GroqError\<close> stands for
  whatever the remote client raises.
\<close>

datatype error = ZeroDivisionError | OverflowError | ValueError | GroqError

text \<open>
  A PIL image, as far as the splitter reads it: \<^verbatim>\<open>image.size\<close> is the pair
  \<open>(width, height)\<close>. Pillow keeps both in C integers, so they are at least \<open>0\<close> and
  below \<open>2\<^sup>3\<^sup>1\<close>. The record is used through its extensible scheme, so pixel data
  may ride along in the \<open>more\<close> field.
\<close>

record image =
  width :: int
  height :: int

text \<open>
  The 4-tuple \<^verbatim>\<open>(left, upper, right, lower)\<close> handed to \<^verbatim>\<open>Image.crop\<close>. A stripe is
  the cropped image; it is identified with the region of the source image it shows:
  columns \<open>left \<le> x < right\<close> and rows \<open>upper \<le> y < lower\<close>.
\<close>

record box =
  left :: int
  upper :: int
  right :: int
  lower :: int

type_synonym stripe = box

section \<open>Library operations used by the splitter\<close>

text \<open>
  \<^verbatim>\<open>Image.crop(box)\<close> of Pillow: it raises \<open>ValueError\<close> when \<open>right < left\<close> and,
  failing that, when \<open>lower < upper\<close>; otherwise it returns the region. The box is not
  checked against the size of the image.
\<close>

definition crop :: "'a image_scheme \<Rightarrow> box \<Rightarrow> error + stripe" where
  "crop img b =
     (if right b < left b then Inl ValueError
      else if lower b < upper b then Inl ValueError
      else Inr b)"

section \<open>Floating-point arithmetic\<close>

text \<open>
  A Python \<^verbatim>\<open>float\<close> is an IEEE 754 binary64 number: a finite value, which is a
  rational number (the two zeros are not told apart, no operation below depends on the
  sign of a zero), an infinity or a NaN. The finite floats are the rationals that
  \<open>round64\<close> below leaves unchanged; the float a decimal literal such as \<^verbatim>\<open>0.1\<close>
  denotes is \<open>round64\<close> of the fraction written.
\<close>

datatype float = Finite rat | PosInf | NegInf | NaN

text \<open>
  For \<open>y > 0\<close>, \<open>exponent y\<close> is the integer \<open>e\<close> with \<open>2\<^sup>e \<le> y < 2\<^sup>e\<^sup>+\<^sup>1\<close>. The bit
  lengths of the numerator and of the denominator differ from it by at most one.
\<close>

definition exponent :: "rat \<Rightarrow> int" where
  "exponent y =
     (case quotient_of y of
        (a, b) \<Rightarrow>
          let e0 = bitlen a - bitlen b
          in if 2 powi e0 \<le> y then e0 else e0 - 1)"

text \<open>Rounding to the nearest integer, a tie going to the even neighbour.\<close>

definition round_half_even :: "rat \<Rightarrow> int" where
  "round_half_even q =
     (let n = \<lfloor>q\<rfloor>; r = q - of_int n
      in if r < 1 / 2 then n
         else if 1 / 2 < r then n + 1
         else if even n then n
         else n + 1)"

text \<open>
  The rounding every binary64 operation applies to its exact result: to the nearest
  multiple of the unit in the last place, which is \<open>2\<^sup>e\<^sup>-\<^sup>5\<^sup>2\<close> for a result of exponent
  \<open>e\<close> (53 significant bits) and \<open>2\<^sup>-\<^sup>1\<^sup>0\<^sup>7\<^sup>4\<close> in the subnormal range; ties go to the even
  significand. The range is not cut off here: a result of magnitude \<open>2\<^sup>1\<^sup>0\<^sup>2\<^sup>4\<close> or more
  is an overflow, which the operations below turn into an infinity or an exception.
\<close>

definition round64 :: "rat \<Rightarrow> rat" where
  "round64 y =
     (if y = 0 then 0
      else
        let e = max (exponent \<bar>y\<bar>) (- 1022);
            ulp = 2 powi (e - 52)
        in of_int (round_half_even (y / ulp)) * ulp)"

text \<open>
  The conversion of a Python \<^verbatim>\<open>int\<close> to a \<^verbatim>\<open>float\<close>, which \<^verbatim>\<open>int * float\<close> applies to
  its left operand first: correctly rounded, and \<^verbatim>\<open>OverflowError\<close> when out of range.
\<close>

definition float_of_int :: "int \<Rightarrow> error + rat" where
  "float_of_int k =
     (let a = round64 (of_int k)
      in if 2 ^ 1024 \<le> \<bar>a\<bar> then Inl OverflowError else Inr a)"

text \<open>
  The product of a finite float \<open>a\<close> and a float: rounded, an overflow gives the infinity
  of the sign of the product; zero times an infinity, and anything times a NaN, is a NaN.
  No exception is raised here.
\<close>

definition float_mul :: "rat \<Rightarrow> float \<Rightarrow> float" where
  "float_mul a f =
     (case f of
        Finite b \<Rightarrow>
          let r = round64 (a * b)
          in if 2 ^ 1024 \<le> r then PosInf
             else if r \<le> - (2 ^ 1024) then NegInf
             else Finite r
      | PosInf \<Rightarrow> if 0 < a then PosInf else if a < 0 then NegInf else NaN
      | NegInf \<Rightarrow> if 0 < a then NegInf else if a < 0 then PosInf else NaN
      | NaN \<Rightarrow> NaN)"

text \<open>
  Python's \<^verbatim>\<open>int(x)\<close> on a float: truncation towards zero; \<^verbatim>\<open>OverflowError\<close> on an
  infinity and \<^verbatim>\<open>ValueError\<close> on a NaN.
\<close>

definition int_of_float :: "float \<Rightarrow> error + int" where
  "int_of_float f =
     (case f of
        Finite x \<Rightarrow> Inr (if 0 \<le> x then \<lfloor>x\<rfloor> else \<lceil>x\<rceil>)
      | PosInf \<Rightarrow> Inl OverflowError
      | NegInf \<Rightarrow> Inl OverflowError
      | NaN \<Rightarrow> Inl ValueError)"

section \<open>The stripe splitter\<close>

text \<open>
  The body of the \<^verbatim>\<open>for i in range(stripe_count)\<close> loop of
  \<^verbatim>\<open>split_image_into_horizontal_stripes\<close>, run over the list of indices; an exception
  of \<^verbatim>\<open>crop\<close> leaves the loop at once.
\<close>

fun crop_stripes :: "'a image_scheme \<Rightarrow> int \<Rightarrow> int \<Rightarrow> int list \<Rightarrow> error + stripe list" where
  "crop_stripes img stripe_height overlap_height [] = Inr []"
| "crop_stripes img stripe_height overlap_height (i # idxs) =
     (case crop img
             \<lparr>left = 0,
              upper = max (i * stripe_height - overlap_height) 0,
              right = width img,
              lower = min ((i + 1) * stripe_height + overlap_height) (height img)\<rparr> of
        Inl e \<Rightarrow> Inl e
      | Inr stripe \<Rightarrow>
          (case crop_stripes img stripe_height overlap_height idxs of
             Inl e \<Rightarrow> Inl e
           | Inr stripes \<Rightarrow> Inr (stripe # stripes)))"

text \<open>
  \<^verbatim>\<open>split_image_into_horizontal_stripes(image, stripe_count, overlap)\<close>. Python's
  \<^verbatim>\<open>//\<close> is floor division, which is \<open>div\<close> on \<open>int\<close>, and raises on a zero divisor;
  \<^verbatim>\<open>int(stripe_height * overlap)\<close> converts \<open>stripe_height\<close> to a float, multiplies in
  binary64 and truncates; \<^verbatim>\<open>range(stripe_count)\<close> is \<open>[0..stripe_count - 1]\<close>, empty for
  \<open>stripe_count \<le> 0\<close>.
\<close>

definition split_image_into_horizontal_stripes ::
    "'a image_scheme \<Rightarrow> int \<Rightarrow> float \<Rightarrow> error + stripe list" where
  "split_image_into_horizontal_stripes img stripe_count overlap =
     (if stripe_count = 0 then Inl ZeroDivisionError
      else
        let stripe_height = height img div stripe_count
        in case float_of_int stripe_height of
             Inl e \<Rightarrow> Inl e
           | Inr a \<Rightarrow>
               (case int_of_float (float_mul a overlap) of
                  Inl e \<Rightarrow> Inl e
                | Inr overlap_height \<Rightarrow>
                    crop_stripes img stripe_height overlap_height [0..stripe_count - 1]))"

text \<open>The box the loop computes for index \<open>i\<close>, as a function of the loop's variables.\<close>

definition stripe_box :: "int \<Rightarrow> int \<Rightarrow> int \<Rightarrow> int \<Rightarrow> int \<Rightarrow> box" where
  "stripe_box w h stripe_height overlap_height i =
     \<lparr>left = 0,
      upper = max (i * stripe_height - overlap_height) 0,
      right = w,
      lower = min ((i + 1) * stripe_height + overlap_height) h\<rparr>"

text \<open>
  Observers of a result of the splitter: the row range \<open>(upper, lower)\<close> of the
  stripe at a position of the returned list, and the number of rows two stripes share.
\<close>

definition stripe_rows :: "error + stripe list \<Rightarrow> nat \<Rightarrow> (int \<times> int) option" where
  "stripe_rows r k =
     (case r of
        Inl e \<Rightarrow> None
      | Inr stripes \<Rightarrow>
          if k < length stripes then Some (upper (stripes ! k), lower (stripes ! k))
          else None)"

definition shared_rows :: "stripe \<Rightarrow> stripe \<Rightarrow> int" where
  "shared_rows s t = max 0 (min (lower s) (lower t) - max (upper s) (upper t))"

definition adjacent_overlap :: "error + stripe list \<Rightarrow> nat \<Rightarrow> int option" where
  "adjacent_overlap r k =
     (case r of
        Inl e \<Rightarrow> None
      | Inr stripes \<Rightarrow>
          if Suc k < length stripes then Some (shared_rows (stripes ! k) (stripes ! Suc k))
          else None)"

definition row_covered :: "error + stripe list \<Rightarrow> int \<Rightarrow> bool" where
  "row_covered r y =
     (case r of
        Inl e \<Rightarrow> False
      | Inr stripes \<Rightarrow> list_ex (\<lambda>s. upper s \<le> y \<and> y < lower s) stripes)"

section \<open>Strings\<close>

text \<open>
  A Python \<^verbatim>\<open>str\<close> is a sequence of Unicode code points. \<open>str_of\<close> reads an ASCII
  literal; code points beyond ASCII are written as numbers.
\<close>

type_synonym str = "nat list"

definition str_of :: "string \<Rightarrow> str" where
  "str_of cs = map of_char cs"

text \<open>
  The characters \<^verbatim>\<open>str.strip()\<close> removes: those for which \<^verbatim>\<open>str.isspace\<close> holds
  (tab to carriage return, the separators 28 to 31, space, NEL, no-break space and the
  Unicode space separators).
\<close>

definition isspace :: "nat \<Rightarrow> bool" where
  "isspace c =
     ((9 \<le> c \<and> c \<le> 13) \<or> (28 \<le> c \<and> c \<le> 32) \<or> c = 133 \<or> c = 160 \<or> c = 5760 \<or>
      (8192 \<le> c \<and> c \<le> 8202) \<or> c = 8232 \<or> c = 8233 \<or> c = 8239 \<or> c = 8287 \<or>
      c = 12288)"

definition strip :: "str \<Rightarrow> str" where
  "strip s = rev (dropWhile isspace (rev (dropWhile isspace s)))"

text \<open>\<^verbatim>\<open>sep.join(xs)\<close>: the elements in order, \<open>sep\<close> between neighbours.\<close>

fun join :: "str \<Rightarrow> str list \<Rightarrow> str" where
  "join sep [] = []"
| "join sep [x] = x"
| "join sep (x # y # ys) = x @ sep @ join sep (y # ys)"

text \<open>
  The combined text in the specification's words: the texts in their order, each but the
  first preceded by a blank line (two line feeds).
\<close>

definition blank_line_separated :: "str list \<Rightarrow> str" where
  "blank_line_separated texts =
     concat (map (\<lambda>(k, t). if k = 0 then t else [10, 10] @ t) (enumerate 0 texts))"

text \<open>A string with no white space at either end.\<close>

definition trimmed :: "str \<Rightarrow> bool" where
  "trimmed s = (case s of [] \<Rightarrow> True | c # cs \<Rightarrow> \<not> isspace (hd s) \<and> \<not> isspace (last s))"

section \<open>Configuration\<close>

text \<open>
  \<^verbatim>\<open>config/settings.py\<close>. \<^verbatim>\<open>load_dotenv(find_dotenv())\<close> adds the variables of the
  \<^verbatim>\<open>.env\<close> file it finds (none when there is no file) to the process environment
  without overriding a variable that is already set; \<^verbatim>\<open>os.getenv\<close> returns \<open>None\<close> for
  a variable that is not set and never raises.
\<close>

type_synonym environ = "str \<rightharpoonup> str"

definition load_dotenv :: "environ \<Rightarrow> environ \<Rightarrow> environ" where
  "load_dotenv dotenv env = dotenv ++ env"

definition getenv :: "environ \<Rightarrow> str \<Rightarrow> str option" where
  "getenv env name = env name"

definition GROQ_API_KEY :: "environ \<Rightarrow> environ \<Rightarrow> str option" where
  "GROQ_API_KEY dotenv env = getenv (load_dotenv dotenv env) (str_of ''GROQ_API_KEY'')"

text \<open>\<^verbatim>\<open>class OCRProcessor\<close> and its \<^verbatim>\<open>__init__\<close>, which stores the setting as it is.\<close>

record ocr_processor =
  groq_api_key :: "str option"

definition OCRProcessor :: "str option \<Rightarrow> ocr_processor" where
  "OCRProcessor key = \<lparr>groq_api_key = key\<rparr>"

text \<open>
  The start of \<^verbatim>\<open>app.py\<close>: importing \<^verbatim>\<open>src.ocr_processor\<close> runs the settings module,
  then \<^verbatim>\<open>ocr_processor = OCRProcessor()\<close>. No statement on this path raises.
\<close>

definition startup :: "environ \<Rightarrow> environ \<Rightarrow> ocr_processor" where
  "startup dotenv env = OCRProcessor (GROQ_API_KEY dotenv env)"

section \<open>The remote model\<close>

text \<open>
  The keyword arguments of \<^verbatim>\<open>ChatGroq(...)\<close>, the messages of a request, and a remote
  call as it leaves the process: the client it is made with and the messages.
\<close>

record chat_groq =
  kw_groq_api_key :: "str option"
  kw_model_name :: str
  kw_temperature :: int
  kw_max_retries :: int

datatype part = Text str | Image_url str

datatype body = Plain str | Parts "part list"

record message =
  role :: str
  content :: body

type_synonym call = "chat_groq \<times> message list"

text \<open>
  \<^verbatim>\<open>langchain_groq\<close> is not part of the repository: it is a parameter. \<open>ChatGroq\<close> is
  the constructor, returning the exception it raises if any; \<open>answer\<close> is what
  \<^verbatim>\<open>invoke(messages).content\<close> evaluates to (or the exception left once the client's
  retries are used up), given the calls made before.
\<close>

record groq_library =
  ChatGroq :: "chat_groq \<Rightarrow> error option"
  answer :: "call list \<Rightarrow> chat_groq \<Rightarrow> message list \<Rightarrow> error + str"

text \<open>
  \<^verbatim>\<open>groq_llm.invoke(messages)\<close>: the one place where a remote call is issued. The list
  of calls issued so far is the state threaded through the pipeline.
\<close>

definition invoke ::
    "groq_library \<Rightarrow> chat_groq \<Rightarrow> message list \<Rightarrow> call list \<Rightarrow> (error + str) \<times> call list" where
  "invoke lib groq_llm messages calls =
     (answer lib calls groq_llm messages, calls @ [(groq_llm, messages)])"

text \<open>A test double: the constructor accepts every key and every call is answered \<open>reply\<close>.\<close>

definition canned_library :: "str \<Rightarrow> groq_library" where
  "canned_library reply =
     \<lparr>ChatGroq = (\<lambda>groq_llm. None), answer = (\<lambda>calls groq_llm messages. Inr reply)\<rparr>"

text \<open>
  A second test double: its constructor refuses an absent key with \<open>GroqError\<close>, and
  accepts any other.
\<close>

definition strict_library :: "str \<Rightarrow> groq_library" where
  "strict_library reply =
     \<lparr>ChatGroq = (\<lambda>groq_llm. if kw_groq_api_key groq_llm = None then Some GroqError else None),
      answer = (\<lambda>calls groq_llm messages. Inr reply)\<rparr>"

section \<open>The image encoder\<close>

text \<open>
  Pillow's \<^verbatim>\<open>convert\<close> and \<^verbatim>\<open>save\<close> (into a \<^verbatim>\<open>BytesIO\<close>, read back with
  \<^verbatim>\<open>getvalue\<close>) are parameters over an image type \<open>'i\<close>; each may raise.
\<close>

record 'i pil_library =
  convert :: "'i \<Rightarrow> str \<Rightarrow> error + 'i"
  save :: "'i \<Rightarrow> str \<Rightarrow> int \<Rightarrow> error + nat list"

text \<open>\<^verbatim>\<open>base64.b64encode\<close> (RFC 4648, with padding), on bytes as numbers below 256.\<close>

definition b64_symbol :: "nat \<Rightarrow> nat" where
  "b64_symbol v =
     (if v < 26 then 65 + v
      else if v < 52 then 97 + (v - 26)
      else if v < 62 then 48 + (v - 52)
      else if v = 62 then 43
      else 47)"

fun b64encode :: "nat list \<Rightarrow> nat list" where
  "b64encode [] = []"
| "b64encode [a] = [b64_symbol (a div 4), b64_symbol (a mod 4 * 16), 61, 61]"
| "b64encode [a, b] =
     [b64_symbol (a div 4), b64_symbol (a mod 4 * 16 + b div 16), b64_symbol (b mod 16 * 4), 61]"
| "b64encode (a # b # c # bs) =
     [b64_symbol (a div 4), b64_symbol (a mod 4 * 16 + b div 16),
      b64_symbol (b mod 16 * 4 + c div 64), b64_symbol (c mod 64)] @ b64encode bs"

text \<open>
  \<^verbatim>\<open>encode_image_pil\<close>. The output of \<open>b64encode\<close> is ASCII, so \<^verbatim>\<open>decode("utf-8")\<close>
  maps each byte to the code point of the same number.
\<close>

definition encode_image_pil :: "'i pil_library \<Rightarrow> 'i \<Rightarrow> error + str" where
  "encode_image_pil pil img =
     (case convert pil img (str_of ''RGB'') of
        Inl e \<Rightarrow> Inl e
      | Inr rgb \<Rightarrow>
          (case save pil rgb (str_of ''JPEG'') 90 of
             Inl e \<Rightarrow> Inl e
           | Inr buffered \<Rightarrow> Inr (b64encode buffered)))"

section \<open>The two remote operations\<close>

text \<open>The fixed texts of the two requests, as the source spells them.\<close>

definition data_url_prefix :: str where
  "data_url_prefix = concat
     [str_of ''data:image/jpeg;base64,'']"

definition ocr_prompt :: str where
  "ocr_prompt = concat
     [[10], replicate 28 32, str_of ''A imagem cont'', [233],
      str_of ''m texto impresso e anota'', [231], [245],
      str_of ''es manuscritas. Sua tarefa '', [233], str_of '' extrair'', [10],
      replicate 28 32, str_of ''cuidadosamente todo o conte'', [250],
      str_of ''do textual, incluindo elementos manuscritos.'', [10], replicate 28 32,
      str_of ''Sempre retorne o texto em portugu'', [234], str_of ''s do Brasil (pt-BR).'',
      [10], replicate 24 32]"

definition consolidation_prompt_head :: str where
  "consolidation_prompt_head = concat
     [[10], replicate 20 32, str_of ''Voc'', [234], str_of '' recebeu v'', [225],
      str_of ''rios outputs em markdown extra'', [237], str_of ''dos de se'', [231], [245],
      str_of ''es sobrepostas de uma imagem.'', [10], replicate 20 32, str_of ''Algumas se'',
      [231], [245], str_of ''es podem conter informa'', [231], [245],
      str_of ''es duplicadas ou conflitantes devido '', [224], str_of '' sobreposi'', [231],
      [227], str_of ''o.'', [10], replicate 20 32, str_of ''Sua tarefa '', [233], str_of '':'',
      [10], replicate 20 32, str_of ''1. Identificar e consolidar linhas de dados que est'',
      [227], str_of ''o relacionadas, garantindo que a vers'', [227],
      str_of ''o mais completa da informa'', [231], [227], str_of ''o seja mantida.'', [10],
      replicate 20 32, str_of ''2. Para linhas com informa'', [231], [245],
      str_of ''es conflitantes (por exemplo, valores diferentes para um campo), '',
      str_of ''priorize a entrada mais detalhada.'', [10], replicate 20 32,
      str_of ''3. Se um campo est'', [225], str_of '' faltando em uma linha mas est'', [225],
      str_of '' presente em outra, combine as informa'', [231], [245], str_of ''es em uma '',
      [250], str_of ''nica linha.'', [10], replicate 20 32,
      str_of ''4. Produza os dados consolidados em um formato tabular limpo '',
      str_of ''usando a sintaxe Markdown, adequada para renderiza'', [231], [227],
      str_of ''o direta.'', [10], replicate 20 32, str_of ''5. Somente sa'', [237],
      str_of ''da Markdown: Retorne apenas o conte'', [250],
      str_of ''do em Markdown sem nenhuma explica'', [231], [227], str_of ''o ou coment'',
      [225], str_of ''rio adicional.'', [10], replicate 20 32, str_of ''Aqui est'', [225],
      str_of '' o conte'', [250], str_of ''do a ser processado: '']"

definition consolidation_prompt_tail :: str where
  "consolidation_prompt_tail = concat
     [[10], replicate 16 32]"

text \<open>
  The keyword arguments both operations build their client with:
  \<^verbatim>\<open>ChatGroq(groq_api_key=self.groq_api_key, model_name=model, temperature=0, max_retries=3)\<close>.
\<close>

definition client_args :: "ocr_processor \<Rightarrow> str \<Rightarrow> chat_groq" where
  "client_args self model =
     \<lparr>kw_groq_api_key = groq_api_key self, kw_model_name = model,
      kw_temperature = 0, kw_max_retries = 3\<rparr>"

text \<open>
  \<^verbatim>\<open>OCRProcessor.ocr\<close>: the client is built first, then the image is encoded, then the
  one remote call is made; the reply is stripped.
\<close>

definition ocr ::
    "groq_library \<Rightarrow> 'i pil_library \<Rightarrow> ocr_processor \<Rightarrow> 'i \<Rightarrow> str \<Rightarrow> call list \<Rightarrow>
       (error + str) \<times> call list" where
  "ocr lib pil self img model calls =
     (let groq_llm = client_args self model
      in case ChatGroq lib groq_llm of
           Some e \<Rightarrow> (Inl e, calls)
         | None \<Rightarrow>
             (case encode_image_pil pil img of
                Inl e \<Rightarrow> (Inl e, calls)
              | Inr b64 \<Rightarrow>
                  let image_data_url = data_url_prefix @ b64;
                      messages = [\<lparr>role = str_of ''user'',
                                   content = Parts [Text ocr_prompt, Image_url image_data_url]\<rparr>]
                  in case invoke lib groq_llm messages calls of
                       (Inl e, calls') \<Rightarrow> (Inl e, calls')
                     | (Inr response, calls') \<Rightarrow> (Inr (strip response), calls')))"

text \<open>
  \<^verbatim>\<open>OCRProcessor.format_to_table\<close>: the client is built, the runs are joined with
  \<^verbatim>\<open>"\n\n"\<close>, the joined text is put into the prompt, the one remote call is made and
  the reply is stripped. Nothing in the body looks at \<open>markdown_runs\<close> before the call.
\<close>

definition format_to_table ::
    "groq_library \<Rightarrow> ocr_processor \<Rightarrow> str list \<Rightarrow> str \<Rightarrow> call list \<Rightarrow>
       (error + str) \<times> call list" where
  "format_to_table lib self markdown_runs model calls =
     (let groq_llm = client_args self model
      in case ChatGroq lib groq_llm of
           Some e \<Rightarrow> (Inl e, calls)
         | None \<Rightarrow>
             let combined_markdown = join [10, 10] markdown_runs;
                 messages = [\<lparr>role = str_of ''user'',
                              content = Plain (consolidation_prompt_head @ combined_markdown @
                                               consolidation_prompt_tail)\<rparr>]
             in case invoke lib groq_llm messages calls of
                  (Inl e, calls') \<Rightarrow> (Inl e, calls')
                | (Inr response, calls') \<Rightarrow> (Inr (strip response), calls'))"

section \<open>The pipeline\<close>

text \<open>
  The main part of \<^verbatim>\<open>app.py\<close> for an uploaded image, once it is split: the loop that
  sends every stripe to \<^verbatim>\<open>ocr\<close> in order and collects the texts (the outer loop runs
  once, \<^verbatim>\<open>n = 1\<close>), then the consolidation of the texts. An exception ends the run.
  The progress display is left out.
\<close>

fun ocr_stripes ::
    "groq_library \<Rightarrow> 'i pil_library \<Rightarrow> ocr_processor \<Rightarrow> 'i list \<Rightarrow> call list \<Rightarrow>
       (error + str list) \<times> call list" where
  "ocr_stripes lib pil self [] calls = (Inr [], calls)"
| "ocr_stripes lib pil self (stripe # stripes) calls =
     (case ocr lib pil self stripe (str_of ''llama-3.2-90b-vision-preview'') calls of
        (Inl e, calls') \<Rightarrow> (Inl e, calls')
      | (Inr stripe_markdown, calls') \<Rightarrow>
          (case ocr_stripes lib pil self stripes calls' of
             (Inl e, calls'') \<Rightarrow> (Inl e, calls'')
           | (Inr markdown_runs, calls'') \<Rightarrow> (Inr (stripe_markdown # markdown_runs), calls'')))"

definition process_stripes ::
    "groq_library \<Rightarrow> 'i pil_library \<Rightarrow> ocr_processor \<Rightarrow> 'i list \<Rightarrow> call list \<Rightarrow>
       (error + str) \<times> call list" where
  "process_stripes lib pil self stripes calls =
     (case ocr_stripes lib pil self stripes calls of
        (Inl e, calls') \<Rightarrow> (Inl e, calls')
      | (Inr markdown_runs, calls') \<Rightarrow>
          format_to_table lib self markdown_runs (str_of ''llama-3.3-70b-versatile'') calls')"

section \<open>Properties of the floating-point operations\<close>

text \<open>
  \<open>exponent\<close> is the binary exponent; rounding keeps a number between the integers
  around it, so integers below \<open>2\<^sup>5\<^sup>3\<close> are floats and the integer part of a rounded
  number is that of the exact one or one more.
\<close>

lemma bitlen_rat_bounds:
  assumes "0 < a"
  shows "(2::rat) powi (bitlen a - 1) \<le> of_int a" and "of_int a < (2::rat) powi bitlen a"
proof -
  have pos: "1 \<le> bitlen a"
    using assms bitlen_eq_zero_iff [of a] bitlen_nonneg [of a] by linarith
  have "(2::int) ^ nat (bitlen a - 1) \<le> a" and "a < 2 ^ nat (bitlen a)"
    using bitlen_bounds [OF assms] by simp_all
  then have "(of_int (2 ^ nat (bitlen a - 1)) :: rat) \<le> of_int a"
    and "(of_int a :: rat) < of_int (2 ^ nat (bitlen a))"
    by (simp_all only: of_int_le_iff of_int_less_iff)
  then show "(2::rat) powi (bitlen a - 1) \<le> of_int a" and "of_int a < (2::rat) powi bitlen a"
    using pos by (simp_all add: power_int_nonneg_exp)
qed

lemma exponent_bounds:
  assumes "0 < y"
  shows "2 powi exponent y \<le> y" and "y < 2 powi (exponent y + 1)"
proof -
  obtain a b where q: "quotient_of y = (a, b)"
    by (cases "quotient_of y")
  have b: "0 < b"
    using q by (rule quotient_of_denom_pos)
  have y: "y = of_int a / of_int b"
    using q by (rule quotient_of_div)
  have a: "0 < a"
    using assms b y by (simp add: zero_less_divide_iff)
  let ?e0 = "bitlen a - bitlen b"
  have e: "exponent y = (if 2 powi ?e0 \<le> y then ?e0 else ?e0 - 1)"
    by (simp add: exponent_def q Let_def)
  have brat: "(0::rat) < of_int b" using b by simp
  have low: "2 powi (?e0 - 1) \<le> y"
  proof -
    have "(2::rat) powi (?e0 - 1) = 2 powi (bitlen a - 1) / 2 powi bitlen b"
      by (simp add: power_int_diff)
    also have "\<dots> \<le> of_int a / 2 powi bitlen b"
      using bitlen_rat_bounds(1) [OF a] by (simp add: divide_right_mono)
    also have "\<dots> \<le> of_int a / of_int b"
      using bitlen_rat_bounds(2) [OF b] a brat by (intro divide_left_mono) simp_all
    finally show ?thesis using y by simp
  qed
  have high: "y < 2 powi (?e0 + 1)"
  proof -
    have "y = of_int a / of_int b" by (rule y)
    also have "\<dots> < 2 powi bitlen a / of_int b"
      using bitlen_rat_bounds(2) [OF a] brat by (simp add: divide_strict_right_mono)
    also have "\<dots> \<le> 2 powi bitlen a / 2 powi (bitlen b - 1)"
      using bitlen_rat_bounds(1) [OF b] brat by (intro divide_left_mono) simp_all
    also have "\<dots> = 2 powi (?e0 + 1)"
      by (simp add: power_int_diff power_int_add)
    finally show ?thesis .
  qed
  show "2 powi exponent y \<le> y"
    using low by (simp add: e)
  show "y < 2 powi (exponent y + 1)"
    using high by (auto simp add: e)
qed

lemma pow2_less_cancel:
  assumes "(2::rat) powi m < 2 powi n"
  shows "m < n"
proof (rule ccontr)
  assume "\<not> m < n"
  then have "n \<le> m" by simp
  then have "(2::rat) powi n \<le> 2 powi m"
    by (rule power_int_increasing) simp
  with assms show False by simp
qed

lemma exponent_eqI:
  assumes "0 < y" and "2 powi e \<le> y" and "y < 2 powi (e + 1)"
  shows "exponent y = e"
proof -
  have "(2::rat) powi e < 2 powi (exponent y + 1)"
    using assms(2) exponent_bounds(2) [OF assms(1)] by (rule le_less_trans)
  then have a: "e < exponent y + 1"
    by (rule pow2_less_cancel)
  have "(2::rat) powi exponent y < 2 powi (e + 1)"
    using exponent_bounds(1) [OF assms(1)] assms(3) by (rule le_less_trans)
  then have b: "exponent y < e + 1"
    by (rule pow2_less_cancel)
  show ?thesis using a b by simp
qed

lemma round_half_even_floor: "\<lfloor>q\<rfloor> \<le> round_half_even q"
  by (simp add: round_half_even_def Let_def)

lemma round_half_even_ceiling: "round_half_even q \<le> \<lceil>q\<rceil>"
proof (cases "q = of_int \<lfloor>q\<rfloor>")
  case True
  then have "q - of_int \<lfloor>q\<rfloor> = 0" by simp
  then have "round_half_even q = \<lfloor>q\<rfloor>"
    by (simp add: round_half_even_def Let_def)
  then show ?thesis by (simp add: floor_le_ceiling)
next
  case False
  then have "of_int \<lfloor>q\<rfloor> < q"
    using of_int_floor_le [of q] by (simp only: order_le_less) auto
  then have "\<lfloor>q\<rfloor> < \<lceil>q\<rceil>" by (simp only: less_ceiling_iff)
  then have "\<lfloor>q\<rfloor> + 1 \<le> \<lceil>q\<rceil>" by simp
  moreover have "round_half_even q \<le> \<lfloor>q\<rfloor> + 1"
    by (simp add: round_half_even_def Let_def)
  ultimately show ?thesis by linarith
qed

lemma round64_scaled:
  assumes "y \<noteq> 0" and "2 powi e \<le> \<bar>y\<bar>" and "\<bar>y\<bar> < 2 powi (e + 1)"
    and "- 1022 \<le> e" and "e \<le> 52"
  shows "round64 y = of_int (round_half_even (y * 2 ^ nat (52 - e))) / 2 ^ nat (52 - e)"
proof -
  have "0 < \<bar>y\<bar>" using assms(1) by simp
  then have "exponent \<bar>y\<bar> = e" using assms(2,3) by (rule exponent_eqI)
  then have m: "max (exponent \<bar>y\<bar>) (- 1022) = e" using assms(4) by simp
  have "e - 52 = - (52 - e)" by simp
  then have "(2::rat) powi (e - 52) = 1 / 2 powi (52 - e)"
    by (simp only: power_int_minus_divide)
  also have "\<dots> = 1 / 2 ^ nat (52 - e)"
    using assms(5) by (simp add: power_int_nonneg_exp)
  finally have ulp: "(2::rat) powi (e - 52) = 1 / 2 ^ nat (52 - e)" .
  show ?thesis
    using assms(1) by (simp add: round64_def Let_def m ulp)
qed

lemma exponent_le_52:
  assumes "0 < y" and "y < 2 ^ 53"
  shows "exponent y \<le> 52"
proof -
  have "(2::rat) powi exponent y \<le> y" using assms(1) by (rule exponent_bounds)
  also have "y < 2 powi 53" using assms(2) by simp
  finally have "exponent y < 53" by (rule pow2_less_cancel)
  then show ?thesis by simp
qed

lemma round64_sandwich:
  assumes "0 < y" and "y < 2 ^ 53"
  shows "of_int m \<le> y \<Longrightarrow> of_int m \<le> round64 y"
    and "y \<le> of_int m \<Longrightarrow> round64 y \<le> of_int m"
proof -
  let ?e = "max (exponent y) (- 1022)"
  let ?k = "nat (52 - ?e)"
  have e: "?e \<le> 52" using exponent_le_52 [OF assms] by simp
  have "?e - 52 = - (52 - ?e)" by simp
  then have "(2::rat) powi (?e - 52) = 1 / 2 powi (52 - ?e)"
    by (simp only: power_int_minus_divide)
  also have "\<dots> = 1 / 2 ^ ?k"
    using e by (simp add: power_int_nonneg_exp)
  finally have ulp: "(2::rat) powi (?e - 52) = 1 / 2 ^ ?k" .
  have r: "round64 y = of_int (round_half_even (y * 2 ^ ?k)) / 2 ^ ?k"
    using assms(1) by (simp add: round64_def Let_def ulp)
  have pos: "(0::rat) < 2 ^ ?k" by simp
  show "of_int m \<le> round64 y" if "of_int m \<le> y"
  proof -
    have "of_int (m * 2 ^ ?k) \<le> y * 2 ^ ?k"
      using that by (simp add: mult_right_mono)
    then have "m * 2 ^ ?k \<le> \<lfloor>y * 2 ^ ?k\<rfloor>"
      by (simp only: le_floor_iff)
    also have "\<dots> \<le> round_half_even (y * 2 ^ ?k)"
      by (rule round_half_even_floor)
    finally have "(of_int (m * 2 ^ ?k) :: rat) \<le> of_int (round_half_even (y * 2 ^ ?k))"
      by (simp only: of_int_le_iff)
    then have "of_int m * 2 ^ ?k \<le> (of_int (round_half_even (y * 2 ^ ?k)) :: rat)"
      by simp
    then show ?thesis
      unfolding r using pos by (simp add: pos_le_divide_eq)
  qed
  show "round64 y \<le> of_int m" if "y \<le> of_int m"
  proof -
    have "y * 2 ^ ?k \<le> of_int (m * 2 ^ ?k)"
      using that by (simp add: mult_right_mono)
    then have "\<lceil>y * 2 ^ ?k\<rceil> \<le> m * 2 ^ ?k"
      by (simp only: ceiling_le_iff)
    then have "round_half_even (y * 2 ^ ?k) \<le> m * 2 ^ ?k"
      using round_half_even_ceiling [of "y * 2 ^ ?k"] by linarith
    then have "(of_int (round_half_even (y * 2 ^ ?k)) :: rat) \<le> of_int (m * 2 ^ ?k)"
      by (simp only: of_int_le_iff)
    then have "(of_int (round_half_even (y * 2 ^ ?k)) :: rat) \<le> of_int m * 2 ^ ?k"
      by simp
    then show ?thesis
      unfolding r using pos by (simp add: pos_divide_le_eq)
  qed
qed

lemma round64_of_int:
  assumes "0 \<le> m" and "m < 2 ^ 53"
  shows "round64 (of_int m) = of_int m"
proof (cases "m = 0")
  case True
  then show ?thesis by (simp add: round64_def)
next
  case False
  then have pos: "(0::rat) < of_int m" using assms(1) by simp
  have "(of_int m :: rat) < of_int (2 ^ 53)" using assms(2) by (simp only: of_int_less_iff)
  then have less: "(of_int m :: rat) < 2 ^ 53" by simp
  have "of_int m \<le> round64 (of_int m)"
    using pos less by (rule round64_sandwich(1)) simp
  moreover have "round64 (of_int m) \<le> of_int m"
    using pos less by (rule round64_sandwich(2)) simp
  ultimately show ?thesis by simp
qed

lemma round64_floor_bounds:
  assumes "0 \<le> y" and "y < 2 ^ 53"
  shows "\<lfloor>y\<rfloor> \<le> \<lfloor>round64 y\<rfloor>" and "\<lfloor>round64 y\<rfloor> \<le> \<lceil>y\<rceil>"
proof -
  have "of_int \<lfloor>y\<rfloor> \<le> round64 y \<and> round64 y \<le> of_int \<lceil>y\<rceil>"
  proof (cases "y = 0")
    case True
    then show ?thesis by (simp add: round64_def)
  next
    case False
    then have pos: "0 < y" using assms(1) by simp
    have "of_int \<lfloor>y\<rfloor> \<le> round64 y"
      using pos assms(2) by (rule round64_sandwich(1)) simp
    moreover have "round64 y \<le> of_int \<lceil>y\<rceil>"
      using pos assms(2) by (rule round64_sandwich(2)) simp
    ultimately show ?thesis by simp
  qed
  then show "\<lfloor>y\<rfloor> \<le> \<lfloor>round64 y\<rfloor>" and "\<lfloor>round64 y\<rfloor> \<le> \<lceil>y\<rceil>"
    by (simp_all add: le_floor_iff floor_le_iff)
qed

lemma round64_nonneg:
  assumes "0 \<le> y"
  shows "0 \<le> round64 y"
proof (cases "y = 0")
  case True
  then show ?thesis by (simp add: round64_def)
next
  case False
  let ?ulp = "(2::rat) powi (max (exponent \<bar>y\<bar>) (- 1022) - 52)"
  have ulp: "0 < ?ulp" by simp
  then have "0 \<le> y / ?ulp" using assms by simp
  then have "0 \<le> \<lfloor>y / ?ulp\<rfloor>" by simp
  then have "0 \<le> round_half_even (y / ?ulp)"
    using round_half_even_floor [of "y / ?ulp"] by linarith
  then have "0 \<le> of_int (round_half_even (y / ?ulp)) * ?ulp"
    using ulp by simp
  then show ?thesis using False by (simp add: round64_def Let_def)
qed

text \<open>Integer parts of quotients of numerals, for evaluation.\<close>

lemma floor_rat_numeral_divide:
  "\<lfloor>(numeral a :: rat) / numeral b\<rfloor> = numeral a div numeral b"
  "\<lfloor>- ((numeral a :: rat) / numeral b)\<rfloor> = - numeral a div numeral b"
  "\<lceil>(numeral a :: rat) / numeral b\<rceil> = - (- numeral a div numeral b)"
  "\<lceil>- ((numeral a :: rat) / numeral b)\<rceil> = - (numeral a div numeral b)"
proof -
  show f: "\<lfloor>(numeral a :: rat) / numeral b\<rfloor> = numeral a div numeral b" for a b
    using floor_divide_of_int_eq [of "numeral a" "numeral b", where ?'a = rat] by simp
  show g: "\<lfloor>- ((numeral a :: rat) / numeral b)\<rfloor> = - numeral a div numeral b" for a b
    using floor_divide_of_int_eq [of "- numeral a" "numeral b", where ?'a = rat] by simp
  show "\<lceil>(numeral a :: rat) / numeral b\<rceil> = - (- numeral a div numeral b)"
    unfolding ceiling_def g ..
  show "\<lceil>- ((numeral a :: rat) / numeral b)\<rceil> = - (numeral a div numeral b)"
    unfolding ceiling_def minus_minus f ..
qed

lemma round64_zero: "round64 0 = 0"
  by (simp add: round64_def)

text \<open>Rules that evaluate \<open>round64\<close> at a number once its exponent is given.\<close>

lemmas round64_at =
  round64_scaled [where e = "- 4"] round64_scaled [where e = "- 2"]
  round64_scaled [where e = "- 1"] round64_scaled [where e = 0]
  round64_scaled [where e = 2] round64_scaled [where e = 3] round64_scaled [where e = 4]
  round64_scaled [where e = 6] round64_scaled [where e = 7] round64_scaled [where e = 9]
  round64_zero round_half_even_def Let_def floor_rat_numeral_divide

section \<open>Properties of the splitter\<close>

lemma crop_stripes_boxes:
  assumes "0 \<le> width img"
    and "\<And>i. i \<in> set idxs \<Longrightarrow>
           max (i * sh - oh) 0 \<le> min ((i + 1) * sh + oh) (height img)"
  shows "crop_stripes img sh oh idxs =
           Inr (map (stripe_box (width img) (height img) sh oh) idxs)"
  using assms
proof (induction idxs)
  case Nil
  then show ?case by simp
next
  case (Cons i idxs)
  have "max (i * sh - oh) 0 \<le> min ((i + 1) * sh + oh) (height img)"
    by (rule Cons.prems(2)) simp
  then have ok: "\<not> min ((i + 1) * sh + oh) (height img) < max (i * sh - oh) 0"
    by (simp only: not_less)
  have rest: "crop_stripes img sh oh idxs =
                Inr (map (stripe_box (width img) (height img) sh oh) idxs)"
  proof (rule Cons.IH)
    show "0 \<le> width img" by (rule Cons.prems(1))
  next
    fix j
    assume "j \<in> set idxs"
    then have "j \<in> set (i # idxs)" by simp
    then show "max (j * sh - oh) 0 \<le> min ((j + 1) * sh + oh) (height img)"
      by (rule Cons.prems(2))
  qed
  show ?case
    using ok rest Cons.prems(1) by (simp add: crop_def stripe_box_def)
qed

lemma stripe_height_bounds:
  assumes "1 \<le> n" and "0 \<le> h"
  shows "0 \<le> h div n" and "n * (h div n) \<le> (h::int)" and "h div n \<le> h"
proof -
  show sh: "0 \<le> h div n" using assms by (simp add: pos_imp_zdiv_nonneg_iff)
  have "n * (h div n) + h mod n = h" by simp
  moreover have "0 \<le> h mod n" using assms by simp
  ultimately show le: "n * (h div n) \<le> h" by linarith
  have "1 * (h div n) \<le> n * (h div n)" using assms(1) sh by (rule mult_right_mono)
  then show "h div n \<le> h" using le by simp
qed

lemma index_times_le:
  assumes "0 \<le> sh" and "n * sh \<le> (h::int)" and "i + 1 \<le> n"
  shows "(i + 1) * sh \<le> h"
proof -
  have "(i + 1) * sh \<le> n * sh" using assms(3,1) by (rule mult_right_mono)
  then show ?thesis using assms(2) by linarith
qed

lemma box_ok:
  assumes "0 \<le> sh" and "0 \<le> oh" and "0 \<le> h" and "n * sh \<le> (h::int)"
    and "0 \<le> i" and "i + 1 \<le> n"
  shows "max (i * sh - oh) 0 \<le> min ((i + 1) * sh + oh) h"
proof -
  have a: "(i + 1) * sh \<le> h" using assms(1,4,6) by (rule index_times_le)
  have b: "(i + 1) * sh = i * sh + sh" by (simp add: algebra_simps)
  have c: "0 \<le> i * sh" using assms(1,5) by simp
  show ?thesis using a b c assms(1,2,3) by simp
qed

text \<open>
  The line \<^verbatim>\<open>overlap_height = int(stripe_height * overlap)\<close> for a stripe height that is
  a float and a finite overlap that is not negative, when the product does not overflow:
  the integer part of the rounded product.
\<close>

lemma overlap_height_value:
  assumes "0 \<le> sh" and "sh < 2 ^ 53" and "0 \<le> f" and "round64 (of_int sh * f) < 2 ^ 1024"
  shows "float_of_int sh = Inr (of_int sh)"
    and "int_of_float (float_mul (of_int sh) (Finite f)) = Inr \<lfloor>round64 (of_int sh * f)\<rfloor>"
    and "0 \<le> \<lfloor>round64 (of_int sh * f)\<rfloor>"
proof -
  have exact: "round64 (of_int sh) = of_int sh"
    using assms(1,2) by (rule round64_of_int)
  have "(of_int sh :: rat) < of_int (2 ^ 53)"
    using assms(2) by (simp only: of_int_less_iff)
  then have "\<bar>of_int sh :: rat\<bar> < 2 ^ 53"
    using assms(1) by simp
  also have "(2::rat) ^ 53 \<le> 2 ^ 1024"
    by (rule power_increasing) simp_all
  finally have "\<not> 2 ^ 1024 \<le> \<bar>of_int sh :: rat\<bar>"
    by simp
  then show "float_of_int sh = Inr (of_int sh)"
    by (simp add: float_of_int_def exact Let_def)
  have "0 \<le> of_int sh * f"
    using assms(1,3) by simp
  then have r: "0 \<le> round64 (of_int sh * f)"
    by (rule round64_nonneg)
  then have "\<not> round64 (of_int sh * f) \<le> - (2 ^ 1024)"
    by (simp add: not_le)
  then show "int_of_float (float_mul (of_int sh) (Finite f)) =
               Inr \<lfloor>round64 (of_int sh * f)\<rfloor>"
    using assms(4) r by (simp add: float_mul_def int_of_float_def Let_def not_le)
  show "0 \<le> \<lfloor>round64 (of_int sh * f)\<rfloor>"
    using r by simp
qed

text \<open>With an overlap of at most \<open>1\<close> the rounded product stays below the stripe height.\<close>

lemma product_bounded:
  assumes "0 \<le> sh" and "sh < 2 ^ 53" and "0 \<le> f" and "f \<le> 1"
  shows "round64 (of_int sh * f) \<le> of_int sh" and "round64 (of_int sh * f) < 2 ^ 1024"
proof -
  have sh: "(0::rat) \<le> of_int sh" using assms(1) by simp
  have le: "of_int sh * f \<le> of_int sh"
    using sh assms(4) by (simp add: mult_left_le)
  have "(of_int sh :: rat) < of_int (2 ^ 53)"
    using assms(2) by (simp only: of_int_less_iff)
  then have small: "(of_int sh :: rat) < 2 ^ 53" by simp
  show b: "round64 (of_int sh * f) \<le> of_int sh"
  proof (cases "of_int sh * f = 0")
    case True
    then show ?thesis using sh by (simp add: round64_def)
  next
    case False
    then have "0 < of_int sh * f" using sh assms(3) by (simp add: less_le)
    moreover have "of_int sh * f < 2 ^ 53" using le small by simp
    ultimately show ?thesis using le by (rule round64_sandwich(2))
  qed
  have "(2::rat) ^ 53 \<le> 2 ^ 1024"
    by (rule power_increasing) simp_all
  with b small show "round64 (of_int sh * f) < 2 ^ 1024" by simp
qed

lemma split_boxes:
  assumes "0 \<le> width img" and "0 \<le> height img" and "height img < 2 ^ 53"
    and "1 \<le> n" and "0 \<le> f" and "round64 (of_int (height img div n) * f) < 2 ^ 1024"
  shows "split_image_into_horizontal_stripes img n (Finite f) =
           Inr (map (stripe_box (width img) (height img) (height img div n)
                       \<lfloor>round64 (of_int (height img div n) * f)\<rfloor>) [0..n - 1])"
proof -
  let ?sh = "height img div n"
  let ?oh = "\<lfloor>round64 (of_int ?sh * f)\<rfloor>"
  have sh: "0 \<le> ?sh" "n * ?sh \<le> height img" "?sh \<le> height img"
    using assms(2,4) by (simp_all add: stripe_height_bounds)
  have small: "?sh < 2 ^ 53"
    using sh(3) assms(3) by simp
  have oh: "float_of_int ?sh = Inr (of_int ?sh)"
    "int_of_float (float_mul (of_int ?sh) (Finite f)) = Inr ?oh" "0 \<le> ?oh"
    using sh(1) small assms(5,6) by (rule overlap_height_value)+
  have "crop_stripes img ?sh ?oh [0..n - 1] =
          Inr (map (stripe_box (width img) (height img) ?sh ?oh) [0..n - 1])"
  proof (rule crop_stripes_boxes [OF assms(1)])
    fix i
    assume "i \<in> set [0..n - 1]"
    then have "0 \<le> i" "i + 1 \<le> n" by simp_all
    with sh(1,2) oh(3) assms(2)
    show "max (i * ?sh - ?oh) 0 \<le> min ((i + 1) * ?sh + ?oh) (height img)"
      by (intro box_ok)
  qed
  then show ?thesis
    using assms(4) oh(1,2) by (simp add: split_image_into_horizontal_stripes_def Let_def)
qed

lemma split_boxes_fraction:
  assumes "0 \<le> width img" and "0 \<le> height img" and "height img < 2 ^ 53"
    and "1 \<le> n" and "0 \<le> f" and "f \<le> 1"
  shows "split_image_into_horizontal_stripes img n (Finite f) =
           Inr (map (stripe_box (width img) (height img) (height img div n)
                       \<lfloor>round64 (of_int (height img div n) * f)\<rfloor>) [0..n - 1])"
proof -
  have sh: "0 \<le> height img div n" "height img div n \<le> height img"
    using assms(2,4) by (simp_all add: stripe_height_bounds)
  then have "height img div n < 2 ^ 53"
    using assms(3) by simp
  with sh(1) have "round64 (of_int (height img div n) * f) < 2 ^ 1024"
    using assms(5,6) by (rule product_bounded)
  with assms(1-5) show ?thesis by (rule split_boxes)
qed

lemma nth_range:
  assumes "0 \<le> i" and "i < n"
  shows "nat i < length [0..n - 1]" and "[0..n - 1] ! nat i = i"
  using assms by simp_all

text \<open>The definitions a concrete run of the splitter unfolds.\<close>

lemmas split_eval =
  split_image_into_horizontal_stripes_def float_of_int_def float_mul_def int_of_float_def
  crop_def upto_rec1 round64_at

text \<open>
  Claim C1 as stated fails, whether \<open>f\<close> is read as the float or as the decimal fraction
  it is written as. With the float \<^verbatim>\<open>0.7\<close>, a height of 50 and five stripes, the product
  \<^verbatim>\<open>10 * 0.7\<close> is rounded to \<open>7\<close>, so the overlap height is 7 and stripe 0 ends at
  row 17, while the exact product of 10 and the float is below 7 and the claim's
  formula gives 16. With the float \<^verbatim>\<open>0.29\<close>, a height of 500 and five stripes, the
  product is below 29, the overlap height is 28 and stripe 0 ends at row 128, while the
  claim's formula at the fraction \<open>29 / 100\<close> gives 129.
\<close>

theorem split_stripe_bounds_counterexample:
  "stripe_rows
     (split_image_into_horizontal_stripes \<lparr>width = 50, height = 50\<rparr> 5
        (Finite (round64 (7 / 10)))) 0 = Some (0, 17) \<and>
   stripe_rows
     (split_image_into_horizontal_stripes \<lparr>width = 50, height = 50\<rparr> 5
        (Finite (round64 (7 / 10)))) 0 \<noteq>
     Some (max (0 * (50 div 5) - \<lfloor>of_int (50 div 5) * round64 (7 / 10)\<rfloor>) 0,
           min ((0 + 1) * (50 div 5) + \<lfloor>of_int (50 div 5) * round64 (7 / 10)\<rfloor>) 50) \<and>
   stripe_rows
     (split_image_into_horizontal_stripes \<lparr>width = 500, height = 500\<rparr> 5
        (Finite (round64 (29 / 100)))) 0 = Some (0, 128) \<and>
   stripe_rows
     (split_image_into_horizontal_stripes \<lparr>width = 500, height = 500\<rparr> 5
        (Finite (round64 (29 / 100)))) 0 \<noteq>
     Some (max (0 * (500 div 5) - \<lfloor>of_int (500 div 5) * (29 / 100 :: rat)\<rfloor>) 0,
           min ((0 + 1) * (500 div 5) + \<lfloor>of_int (500 div 5) * (29 / 100 :: rat)\<rfloor>) 500)"
  by (simp add: stripe_rows_def split_eval)

text \<open>
  Claim C1, amended. For an image of height \<open>H\<close> and width \<open>W\<close>, a stripe count \<open>n \<ge> 1\<close>
  and an overlap fraction \<open>f\<close> in \<open>[0, 1]\<close>, the splitter returns \<open>n\<close> stripes, and with
  \<open>baseStripeHeight = H div n\<close> and \<open>overlapHeight\<close> the integer part of the binary64
  product of \<open>baseStripeHeight\<close> and \<open>f\<close>, that is of the exact product rounded to the
  nearest float, which is \<open>\<lfloor>baseStripeHeight * f\<rfloor>\<close> or one more, the stripe at index \<open>i\<close>
  has upper bound \<open>max (i * baseStripeHeight - overlapHeight) 0\<close>, lower bound
  \<open>min ((i + 1) * baseStripeHeight + overlapHeight) H\<close>, left bound \<open>0\<close> and right bound
  \<open>W\<close>. The height is below \<open>2\<^sup>5\<^sup>3\<close>, as that of every PIL image is.
\<close>

theorem split_stripe_bounds:
  assumes "0 \<le> width img" and "0 \<le> height img" and "height img < 2 ^ 53"
    and "1 \<le> n" and "0 \<le> f" and "f \<le> 1"
  shows "\<exists>stripes oh.
           split_image_into_horizontal_stripes img n (Finite f) = Inr stripes \<and>
           int (length stripes) = n \<and>
           oh = \<lfloor>round64 (of_int (height img div n) * f)\<rfloor> \<and>
           \<lfloor>of_int (height img div n) * f\<rfloor> \<le> oh \<and>
           oh \<le> \<lfloor>of_int (height img div n) * f\<rfloor> + 1 \<and>
           (\<forall>i. 0 \<le> i \<and> i < n \<longrightarrow>
              stripes ! nat i =
                \<lparr>left = 0,
                 upper = max (i * (height img div n) - oh) 0,
                 right = width img,
                 lower = min ((i + 1) * (height img div n) + oh) (height img)\<rparr>)"
proof -
  let ?sh = "height img div n"
  let ?oh = "\<lfloor>round64 (of_int ?sh * f)\<rfloor>"
  let ?box = "stripe_box (width img) (height img) ?sh ?oh"
  let ?stripes = "map ?box [0..n - 1]"
  have run: "split_image_into_horizontal_stripes img n (Finite f) = Inr ?stripes"
    using assms by (rule split_boxes_fraction)
  have len: "int (length ?stripes) = n"
    using assms(4) by simp
  have nth: "?stripes ! nat i = ?box i" if "0 \<le> i" and "i < n" for i
    using that by (simp add: nth_range)
  have sh: "0 \<le> ?sh" "?sh \<le> height img"
    using assms(2,4) by (simp_all add: stripe_height_bounds)
  have "(of_int ?sh :: rat) \<le> of_int (height img)"
    using sh(2) by (simp only: of_int_le_iff)
  also have "\<dots> < of_int (2 ^ 53)"
    using assms(3) by (simp only: of_int_less_iff)
  finally have small: "(of_int ?sh :: rat) < 2 ^ 53" by simp
  have y: "0 \<le> of_int ?sh * f"
    using sh(1) assms(5) by simp
  have "of_int ?sh * f \<le> of_int ?sh"
    using sh(1) assms(6) by (simp add: mult_left_le)
  then have y': "of_int ?sh * f < 2 ^ 53"
    using small by simp
  have low: "\<lfloor>of_int ?sh * f\<rfloor> \<le> ?oh"
    using y y' by (rule round64_floor_bounds)
  have "?oh \<le> \<lceil>of_int ?sh * f\<rceil>"
    using y y' by (rule round64_floor_bounds)
  also have "\<dots> \<le> \<lfloor>of_int ?sh * f\<rfloor> + 1"
    using ceiling_diff_floor_le_1 [of "of_int ?sh * f"] by linarith
  finally have high: "?oh \<le> \<lfloor>of_int ?sh * f\<rfloor> + 1" .
  show ?thesis
    using run len nth low high
    by (intro exI [of _ ?stripes] exI [of _ ?oh]) (simp add: stripe_box_def)
qed

text \<open>
  The instance of C1 at a 500 by 1000 image, five stripes and the float \<^verbatim>\<open>0.1\<close>: the
  stripe height is 200 and the overlap height is 20.
\<close>

theorem split_stripe_bounds_witness:
  "\<exists>stripes oh.
     split_image_into_horizontal_stripes \<lparr>width = 500, height = 1000\<rparr> 5
       (Finite (round64 (1 / 10))) = Inr stripes \<and>
     int (length stripes) = 5 \<and>
     oh = 20 \<and>
     (\<forall>i. 0 \<le> i \<and> i < 5 \<longrightarrow>
        stripes ! nat i =
          \<lparr>left = 0, upper = max (i * 200 - oh) 0, right = 500,
           lower = min ((i + 1) * 200 + oh) 1000\<rparr>)"
  using split_stripe_bounds [of "\<lparr>width = 500, height = 1000\<rparr>" 5 "round64 (1 / 10)"]
  by (simp add: round64_at)

lemma stripe_box_mono:
  assumes "0 \<le> sh" and "i \<le> j"
  shows "upper (stripe_box w h sh oh i) \<le> upper (stripe_box w h sh oh j)"
    and "lower (stripe_box w h sh oh i) \<le> lower (stripe_box w h sh oh j)"
proof -
  have a: "i * sh \<le> j * sh" using assms by (simp add: mult_right_mono)
  then have b: "(i + 1) * sh \<le> (j + 1) * sh" by (simp add: algebra_simps)
  show "upper (stripe_box w h sh oh i) \<le> upper (stripe_box w h sh oh j)"
    using a by (simp add: stripe_box_def)
  show "lower (stripe_box w h sh oh i) \<le> lower (stripe_box w h sh oh j)"
    using b by (simp add: stripe_box_def)
qed

lemma sorted_map_range:
  assumes "\<And>i j. i \<le> j \<Longrightarrow> g i \<le> (g j :: int)"
  shows "sorted (map g [a..b])"
proof -
  have "sorted_wrt (\<le>) [a..b]" by simp
  then have "sorted_wrt (\<lambda>x y. g x \<le> g y) [a..b]"
    by (rule sorted_wrt_mono_rel [rotated]) (simp add: assms)
  then show ?thesis by (simp add: sorted_map)
qed

text \<open>
  Claim C10. For \<open>n \<ge> 1\<close> and \<open>f\<close> in \<open>[0, 1]\<close> the call raises nothing, every stripe it
  returns has \<open>0 \<le> upper \<le> lower \<le> H\<close> and the columns \<open>[0, W)\<close>, and both the upper
  and the lower bounds are non-decreasing along the list. The height is below \<open>2\<^sup>5\<^sup>3\<close>,
  as that of every PIL image is, so that its conversion to a float is exact.
\<close>

theorem split_stripes_valid:
  assumes "0 \<le> width img" and "0 \<le> height img" and "height img < 2 ^ 53"
    and "1 \<le> n" and "0 \<le> f" and "f \<le> 1"
  shows "\<exists>stripes.
           split_image_into_horizontal_stripes img n (Finite f) = Inr stripes \<and>
           list_all (\<lambda>s. 0 \<le> upper s \<and> upper s \<le> lower s \<and> lower s \<le> height img \<and>
                         left s = 0 \<and> right s = width img) stripes \<and>
           sorted (map upper stripes) \<and> sorted (map lower stripes)"
proof -
  let ?sh = "height img div n"
  let ?oh = "\<lfloor>round64 (of_int ?sh * f)\<rfloor>"
  let ?box = "stripe_box (width img) (height img) ?sh ?oh"
  let ?stripes = "map ?box [0..n - 1]"
  have run: "split_image_into_horizontal_stripes img n (Finite f) = Inr ?stripes"
    using assms by (rule split_boxes_fraction)
  have sh: "0 \<le> ?sh" "n * ?sh \<le> height img"
    using assms(2,4) by (simp_all add: stripe_height_bounds)
  have "0 \<le> of_int ?sh * f"
    using sh(1) assms(5) by simp
  then have "0 \<le> round64 (of_int ?sh * f)"
    by (rule round64_nonneg)
  then have oh: "0 \<le> ?oh"
    by simp
  have each: "0 \<le> upper (?box i) \<and> upper (?box i) \<le> lower (?box i) \<and>
              lower (?box i) \<le> height img \<and> left (?box i) = 0 \<and> right (?box i) = width img"
    if "i \<in> set [0..n - 1]" for i
  proof -
    from that have "0 \<le> i" "i + 1 \<le> n" by simp_all
    with sh oh assms(2)
    have "max (i * ?sh - ?oh) 0 \<le> min ((i + 1) * ?sh + ?oh) (height img)"
      by (intro box_ok)
    then show ?thesis by (simp add: stripe_box_def)
  qed
  have valid: "list_all (\<lambda>s. 0 \<le> upper s \<and> upper s \<le> lower s \<and> lower s \<le> height img \<and>
                         left s = 0 \<and> right s = width img) ?stripes"
    unfolding list_all_iff using each by simp
  have up: "sorted (map upper ?stripes)"
    unfolding map_map comp_def using sh(1) by (intro sorted_map_range stripe_box_mono)
  have low: "sorted (map lower ?stripes)"
    unfolding map_map comp_def using sh(1) by (intro sorted_map_range stripe_box_mono)
  show ?thesis
    using run valid up low by (intro exI [of _ ?stripes]) simp
qed

text \<open>The instance of C10 at the same input.\<close>

theorem split_stripes_valid_witness:
  "\<exists>stripes.
     split_image_into_horizontal_stripes \<lparr>width = 500, height = 1000\<rparr> 5
       (Finite (round64 (1 / 10))) = Inr stripes \<and>
     list_all (\<lambda>s. 0 \<le> upper s \<and> upper s \<le> lower s \<and> lower s \<le> 1000 \<and>
                   left s = 0 \<and> right s = 500) stripes \<and>
     sorted (map upper stripes) \<and> sorted (map lower stripes)"
  using split_stripes_valid [of "\<lparr>width = 500, height = 1000\<rparr>" 5 "round64 (1 / 10)"]
  by (simp add: round64_at)


subsection \<open>The rows the stripes cover\<close>

text \<open>
  For \<open>n \<ge> 1\<close> and \<open>f\<close> in \<open>[0, 1]\<close> the stripes cover the rows from \<open>0\<close> up to
  \<open>min (n * stripe_height + overlap_height) H\<close> and no others: there is no gap between
  them, and the rows below \<open>n * stripe_height + overlap_height\<close>, which exist when
  \<open>H mod n\<close> exceeds the overlap height, are in no stripe.
\<close>

lemma covered_upper_bound:
  fixes sh oh h n i y :: int
  assumes "0 \<le> sh" and "0 \<le> i" and "i + 1 \<le> n"
    and "max (i * sh - oh) 0 \<le> y" and "y < min ((i + 1) * sh + oh) h"
  shows "0 \<le> y \<and> y < min (n * sh + oh) h"
proof -
  have "(i + 1) * sh \<le> n * sh" using assms(3,1) by (rule mult_right_mono)
  then show ?thesis using assms(4,5) by simp
qed

lemma covering_index:
  fixes sh oh h n y :: int
  assumes "0 \<le> sh" and "0 \<le> oh" and "1 \<le> n" and "0 \<le> y" and "y < min (n * sh + oh) h"
  shows "\<exists>i. 0 \<le> i \<and> i \<le> n - 1 \<and> max (i * sh - oh) 0 \<le> y \<and> y < min ((i + 1) * sh + oh) h"
proof (cases "sh = 0")
  case True
  then show ?thesis using assms by (intro exI [of _ 0]) simp
next
  case False
  then have pos: "0 < sh" using assms(1) by simp
  let ?q = "y div sh"
  have q0: "0 \<le> ?q" using pos assms(4) by (simp add: pos_imp_zdiv_nonneg_iff)
  have split: "y = ?q * sh + y mod sh" by simp
  have "0 \<le> y mod sh" using pos by simp
  with split have low: "?q * sh \<le> y" by linarith
  have "y mod sh < sh" using pos by simp
  with split have "y < ?q * sh + sh" by linarith
  then have high: "y < (?q + 1) * sh" by (simp add: algebra_simps)
  show ?thesis
  proof (cases "?q \<le> n - 1")
    case True
    have "max (?q * sh - oh) 0 \<le> y" using low assms(2,4) by simp
    moreover have "y < min ((?q + 1) * sh + oh) h" using high assms(2,5) by simp
    ultimately show ?thesis using q0 True by blast
  next
    case False
    let ?i = "n - 1"
    have "?i * sh \<le> ?q * sh" using False pos by (intro mult_right_mono) simp_all
    then have "max (?i * sh - oh) 0 \<le> y" using low assms(2,4) by simp
    moreover have "y < min ((?i + 1) * sh + oh) h" using assms(5) by simp
    ultimately show ?thesis using assms(3) by (intro exI [of _ ?i]) simp
  qed
qed

lemma covered_rows:
  assumes "0 \<le> width img" and "0 \<le> height img" and "height img < 2 ^ 53"
    and "1 \<le> n" and "0 \<le> f" and "f \<le> 1"
  shows "row_covered (split_image_into_horizontal_stripes img n (Finite f)) y =
           (0 \<le> y \<and>
            y < min (n * (height img div n) + \<lfloor>round64 (of_int (height img div n) * f)\<rfloor>)
                  (height img))"
proof -
  let ?sh = "height img div n"
  let ?oh = "\<lfloor>round64 (of_int ?sh * f)\<rfloor>"
  have run: "split_image_into_horizontal_stripes img n (Finite f) =
               Inr (map (stripe_box (width img) (height img) ?sh ?oh) [0..n - 1])"
    using assms by (rule split_boxes_fraction)
  have sh: "0 \<le> ?sh" using assms(2,4) by (simp add: stripe_height_bounds)
  have "0 \<le> of_int ?sh * f" using sh assms(5) by simp
  then have "0 \<le> round64 (of_int ?sh * f)" by (rule round64_nonneg)
  then have oh: "0 \<le> ?oh" by simp
  have "row_covered (split_image_into_horizontal_stripes img n (Finite f)) y =
          (\<exists>i. 0 \<le> i \<and> i \<le> n - 1 \<and> max (i * ?sh - ?oh) 0 \<le> y \<and>
               y < min ((i + 1) * ?sh + ?oh) (height img))"
  proof -
    have "row_covered (split_image_into_horizontal_stripes img n (Finite f)) y =
            (\<exists>i \<in> set [0..n - 1].
               upper (stripe_box (width img) (height img) ?sh ?oh i) \<le> y \<and>
               y < lower (stripe_box (width img) (height img) ?sh ?oh i))"
      unfolding run row_covered_def by (simp add: list_ex_iff)
    also have "\<dots> = (\<exists>i. 0 \<le> i \<and> i \<le> n - 1 \<and> max (i * ?sh - ?oh) 0 \<le> y \<and>
                         y < min ((i + 1) * ?sh + ?oh) (height img))"
      unfolding stripe_box_def box.simps by auto
    finally show ?thesis .
  qed
  also have "\<dots> = (0 \<le> y \<and> y < min (n * ?sh + ?oh) (height img))"
  proof
    assume "\<exists>i. 0 \<le> i \<and> i \<le> n - 1 \<and> max (i * ?sh - ?oh) 0 \<le> y \<and>
               y < min ((i + 1) * ?sh + ?oh) (height img)"
    then obtain i where i: "0 \<le> i" "i \<le> n - 1" "max (i * ?sh - ?oh) 0 \<le> y"
        "y < min ((i + 1) * ?sh + ?oh) (height img)"
      by blast
    from i(2) have "i + 1 \<le> n" by simp
    with sh i(1) show "0 \<le> y \<and> y < min (n * ?sh + ?oh) (height img)"
      using i(3,4) by (rule covered_upper_bound)
  next
    assume "0 \<le> y \<and> y < min (n * ?sh + ?oh) (height img)"
    then have "0 \<le> y" "y < min (n * ?sh + ?oh) (height img)" by simp_all
    with sh oh assms(4)
    show "\<exists>i. 0 \<le> i \<and> i \<le> n - 1 \<and> max (i * ?sh - ?oh) 0 \<le> y \<and>
               y < min ((i + 1) * ?sh + ?oh) (height img)"
      by (rule covering_index)
  qed
  finally show ?thesis .
qed

subsection \<open>The splitter on concrete inputs\<close>

text \<open>
  Claim C2, at an image of 100 by 49 with the default arguments (five stripes, overlap
  the float \<^verbatim>\<open>0.1\<close>): the stripe height is 9 and the overlap height is 0, the last stripe
  ends at row 45, and rows 45 to 48 of the image lie in no stripe. The claim asks for the
  last lower bound to be the image height and for every row to be covered.
\<close>

theorem rows_lost_at_bottom:
  "stripe_rows
     (split_image_into_horizontal_stripes \<lparr>width = 100, height = 49\<rparr> 5
        (Finite (round64 (1 / 10)))) 4 = Some (36, 45) \<and>
   \<not> row_covered
       (split_image_into_horizontal_stripes \<lparr>width = 100, height = 49\<rparr> 5
          (Finite (round64 (1 / 10)))) 45 \<and>
   \<not> row_covered
       (split_image_into_horizontal_stripes \<lparr>width = 100, height = 49\<rparr> 5
          (Finite (round64 (1 / 10)))) 48"
  by (simp add: stripe_rows_def row_covered_def split_eval)

text \<open>
  Claim C3 as stated fails: in a 500 by 1000 image split into five stripes with overlap
  the float \<^verbatim>\<open>0.1\<close>, the stripe at index 2 does not span rows \<open>[180, 420)\<close>.
\<close>

theorem example_stripe_two_counterexample:
  "\<not> (stripe_rows
         (split_image_into_horizontal_stripes \<lparr>width = 500, height = 1000\<rparr> 5
            (Finite (round64 (1 / 10)))) 0 = Some (0, 220) \<and>
       stripe_rows
         (split_image_into_horizontal_stripes \<lparr>width = 500, height = 1000\<rparr> 5
            (Finite (round64 (1 / 10)))) 2 = Some (180, 420) \<and>
       stripe_rows
         (split_image_into_horizontal_stripes \<lparr>width = 500, height = 1000\<rparr> 5
            (Finite (round64 (1 / 10)))) 4 = Some (780, 1000))"
  by (simp add: stripe_rows_def split_eval)

text \<open>
  Claim C3, amended. For a 500 by 1000 image, five stripes and overlap \<^verbatim>\<open>0.1\<close>, stripe 0
  spans rows \<open>[0, 220)\<close>, stripe 2 spans rows \<open>[380, 620)\<close> and stripe 4 spans rows
  \<open>[780, 1000)\<close>; the range \<open>[180, 420)\<close> is that of stripe 1.
\<close>

theorem example_stripe_rows:
  "stripe_rows
     (split_image_into_horizontal_stripes \<lparr>width = 500, height = 1000\<rparr> 5
        (Finite (round64 (1 / 10)))) 0 = Some (0, 220) \<and>
   stripe_rows
     (split_image_into_horizontal_stripes \<lparr>width = 500, height = 1000\<rparr> 5
        (Finite (round64 (1 / 10)))) 1 = Some (180, 420) \<and>
   stripe_rows
     (split_image_into_horizontal_stripes \<lparr>width = 500, height = 1000\<rparr> 5
        (Finite (round64 (1 / 10)))) 2 = Some (380, 620) \<and>
   stripe_rows
     (split_image_into_horizontal_stripes \<lparr>width = 500, height = 1000\<rparr> 5
        (Finite (round64 (1 / 10)))) 4 = Some (780, 1000)"
  by (simp add: stripe_rows_def split_eval)

text \<open>
  Claim C4 as stated fails: in the same split, stripes 1 and 2 are clamped at neither
  edge of the image and share 40 rows, not \<open>\<lfloor>200 * f\<rfloor> = 20\<close>, whether \<open>f\<close> is the float
  \<^verbatim>\<open>0.1\<close> or the fraction \<open>1 / 10\<close>.
\<close>

theorem adjacent_overlap_counterexample:
  "stripe_rows
     (split_image_into_horizontal_stripes \<lparr>width = 500, height = 1000\<rparr> 5
        (Finite (round64 (1 / 10)))) 1 = Some (180, 420) \<and>
   stripe_rows
     (split_image_into_horizontal_stripes \<lparr>width = 500, height = 1000\<rparr> 5
        (Finite (round64 (1 / 10)))) 2 = Some (380, 620) \<and>
   adjacent_overlap
     (split_image_into_horizontal_stripes \<lparr>width = 500, height = 1000\<rparr> 5
        (Finite (round64 (1 / 10)))) 1 = Some 40 \<and>
   adjacent_overlap
     (split_image_into_horizontal_stripes \<lparr>width = 500, height = 1000\<rparr> 5
        (Finite (round64 (1 / 10)))) 1 \<noteq> Some \<lfloor>of_int (1000 div 5) * round64 (1 / 10)\<rfloor> \<and>
   adjacent_overlap
     (split_image_into_horizontal_stripes \<lparr>width = 500, height = 1000\<rparr> 5
        (Finite (round64 (1 / 10)))) 1 \<noteq> Some \<lfloor>of_int (1000 div 5) * (1 / 10 :: rat)\<rfloor>"
  by (simp add: stripe_rows_def adjacent_overlap_def shared_rows_def split_eval)

lemma shared_rows_unclamped:
  fixes a sh oh h :: int
  assumes "0 \<le> sh" and "0 \<le> oh" and "0 \<le> a + sh - oh" and "a + sh + oh \<le> h"
  shows "max 0 (min (min (a + sh + oh) h) (min (a + sh + sh + oh) h) -
                max (max (a - oh) 0) (max (a + sh - oh) 0)) = 2 * oh"
  using assms by linarith

text \<open>
  Claim C4, amended. For \<open>n \<ge> 2\<close> and \<open>f > 0\<close>, adjacent stripes \<open>i\<close> and \<open>i + 1\<close> share
  exactly \<open>2 * overlapHeight\<close> rows, \<open>overlapHeight\<close> being the integer part of the
  binary64 product of \<open>baseStripeHeight\<close> and \<open>f\<close>, whenever neither bound at their
  common cut is clamped, that is \<open>(i + 1) * baseStripeHeight - overlapHeight \<ge> 0\<close> and
  \<open>(i + 1) * baseStripeHeight + overlapHeight \<le> H\<close>: each of the two stripes reaches
  \<open>overlapHeight\<close> rows across the cut. The height is below \<open>2\<^sup>5\<^sup>3\<close>, as that of every
  PIL image is.
\<close>

theorem adjacent_stripes_overlap:
  assumes "0 \<le> width img" and "0 \<le> height img" and "height img < 2 ^ 53"
    and "2 \<le> n" and "0 < f" and "0 \<le> i" and "i + 1 < n"
    and "0 \<le> (i + 1) * (height img div n) - \<lfloor>round64 (of_int (height img div n) * f)\<rfloor>"
    and "(i + 1) * (height img div n) + \<lfloor>round64 (of_int (height img div n) * f)\<rfloor>
           \<le> height img"
  shows "adjacent_overlap (split_image_into_horizontal_stripes img n (Finite f)) (nat i) =
           Some (2 * \<lfloor>round64 (of_int (height img div n) * f)\<rfloor>)"
proof -
  let ?sh = "height img div n"
  let ?r = "round64 (of_int ?sh * f)"
  let ?oh = "\<lfloor>?r\<rfloor>"
  let ?box = "stripe_box (width img) (height img) ?sh ?oh"
  let ?stripes = "map ?box [0..n - 1]"
  have sh: "0 \<le> ?sh"
    using assms(2,4) by (intro stripe_height_bounds) simp_all
  have "0 \<le> (i + 1) * ?sh"
    using sh assms(6) by simp
  then have "?oh \<le> height img"
    using assms(9) by linarith
  then have "?oh < 2 ^ 53"
    using assms(3) by linarith
  then have "?r < of_int (2 ^ 53)"
    by (simp only: floor_less_iff)
  also have "of_int (2 ^ 53) \<le> (2::rat) ^ 1024"
    by simp
  finally have fits: "?r < 2 ^ 1024" .
  have run: "split_image_into_horizontal_stripes img n (Finite f) = Inr ?stripes"
    using assms(1-5) fits by (intro split_boxes) simp_all
  have "0 \<le> of_int ?sh * f"
    using sh assms(5) by simp
  then have "0 \<le> ?r"
    by (rule round64_nonneg)
  then have oh: "0 \<le> ?oh"
    by simp
  have len: "Suc (nat i) < length ?stripes"
    using assms(6,7) by simp
  have "Suc (nat i) = nat (i + 1)"
    using assms(6) by simp
  then have nxt: "?stripes ! Suc (nat i) = ?box (i + 1)"
    using assms(6,7) by (simp add: nth_range)
  have cur: "?stripes ! nat i = ?box i"
    using assms(6,7) by (simp add: nth_range)
  have step: "(i + 1 + 1) * ?sh = i * ?sh + ?sh + ?sh" "(i + 1) * ?sh = i * ?sh + ?sh"
    by (simp_all add: algebra_simps)
  have "shared_rows (?box i) (?box (i + 1)) = 2 * ?oh"
    unfolding shared_rows_def stripe_box_def box.simps step
    using sh oh assms(8,9) unfolding step by (rule shared_rows_unclamped)
  then show ?thesis
    using run len cur nxt by (simp add: adjacent_overlap_def)
qed

text \<open>The instance of C4 at stripes 1 and 2 of the 500 by 1000 example: 40 rows.\<close>

theorem adjacent_stripes_overlap_witness:
  "adjacent_overlap
     (split_image_into_horizontal_stripes \<lparr>width = 500, height = 1000\<rparr> 5
        (Finite (round64 (1 / 10)))) (nat 1) = Some (2 * 20)"
  using adjacent_stripes_overlap [of "\<lparr>width = 500, height = 1000\<rparr>" 5 "round64 (1 / 10)" 1]
  by (simp add: round64_at)

text \<open>
  Claim C5 as stated fails: an image of width zero, and one of height zero, are split
  without any error.
\<close>

theorem zero_dimension_counterexample:
  "\<not> isl (split_image_into_horizontal_stripes \<lparr>width = 0, height = 1000\<rparr> 5
            (Finite (round64 (1 / 10)))) \<and>
   \<not> isl (split_image_into_horizontal_stripes \<lparr>width = 500, height = 0\<rparr> 5
            (Finite (round64 (1 / 10))))"
  by (simp add: split_eval)

text \<open>
  Claim C5, amended. The splitter does not look at the image beyond its size: for an
  image whose width or height is zero, with \<open>n \<ge> 1\<close> and \<open>f\<close> in \<open>[0, 1]\<close>, it raises
  nothing and returns \<open>n\<close> stripes, each of them empty (zero columns or zero rows). The
  height is below \<open>2\<^sup>5\<^sup>3\<close>, as that of every PIL image is.
\<close>

theorem split_zero_dimension:
  assumes "0 \<le> width img" and "0 \<le> height img" and "height img < 2 ^ 53"
    and "width img = 0 \<or> height img = 0"
    and "1 \<le> n" and "0 \<le> f" and "f \<le> 1"
  shows "\<exists>stripes.
           split_image_into_horizontal_stripes img n (Finite f) = Inr stripes \<and>
           int (length stripes) = n \<and>
           list_all (\<lambda>s. (right s - left s) * (lower s - upper s) = 0) stripes"
proof -
  let ?sh = "height img div n"
  let ?oh = "\<lfloor>round64 (of_int ?sh * f)\<rfloor>"
  let ?box = "stripe_box (width img) (height img) ?sh ?oh"
  let ?stripes = "map ?box [0..n - 1]"
  have run: "split_image_into_horizontal_stripes img n (Finite f) = Inr ?stripes"
    using assms(1,2,3,5,6,7) by (rule split_boxes_fraction)
  have len: "int (length ?stripes) = n"
    using assms(5) by simp
  have flat: "(right (?box i) - left (?box i)) * (lower (?box i) - upper (?box i)) = 0" for i
    using assms(4)
  proof
    assume "width img = 0"
    then show ?thesis by (simp add: stripe_box_def)
  next
    assume "height img = 0"
    then show ?thesis by (simp add: stripe_box_def round64_zero)
  qed
  have "list_all (\<lambda>s. (right s - left s) * (lower s - upper s) = 0) ?stripes"
    unfolding list_all_iff using flat by simp
  then show ?thesis
    using run len by (intro exI [of _ ?stripes]) simp
qed

text \<open>The instance of C5 at an image of width zero.\<close>

theorem split_zero_dimension_witness:
  "\<exists>stripes.
     split_image_into_horizontal_stripes \<lparr>width = 0, height = 1000\<rparr> 5
       (Finite (round64 (1 / 10))) = Inr stripes \<and>
     int (length stripes) = 5 \<and>
     list_all (\<lambda>s. (right s - left s) * (lower s - upper s) = 0) stripes"
  using split_zero_dimension [of "\<lparr>width = 0, height = 1000\<rparr>" 5 "round64 (1 / 10)"]
  by (simp add: round64_at)

text \<open>
  The arguments are not checked either: a stripe count of zero ends in the division, a
  negative one in an empty list, and an overlap outside \<open>[0, 1]\<close> is used as it is.
\<close>

lemma argument_checks_absent:
  "split_image_into_horizontal_stripes \<lparr>width = 500, height = 1000\<rparr> 0
     (Finite (round64 (1 / 10))) = Inl ZeroDivisionError"
  "split_image_into_horizontal_stripes \<lparr>width = 500, height = 1000\<rparr> (- 1)
     (Finite (round64 (1 / 10))) = Inr []"
  "stripe_rows
     (split_image_into_horizontal_stripes \<lparr>width = 500, height = 1000\<rparr> 5
        (Finite (- round64 (1 / 10)))) 0 = Some (20, 180)"
  "stripe_rows
     (split_image_into_horizontal_stripes \<lparr>width = 500, height = 1000\<rparr> 5
        (Finite (round64 (11 / 10)))) 0 = Some (0, 420)"
  by (simp_all add: stripe_rows_def split_eval)

section \<open>Properties of the strings\<close>

text \<open>
  \<open>strip\<close> removes white space only, from the two ends only, and leaves none there;
  \<open>join\<close> with two line feeds is the combined text of the specification.
\<close>

lemma rev_dropWhile_takeWhile:
  "rev (dropWhile P (rev xs)) @ rev (takeWhile P (rev xs)) = xs"
proof -
  have "rev (dropWhile P (rev xs)) @ rev (takeWhile P (rev xs)) =
          rev (takeWhile P (rev xs) @ dropWhile P (rev xs))"
    by (simp only: rev_append)
  also have "\<dots> = rev (rev xs)"
    by (simp only: takeWhile_dropWhile_id)
  also have "\<dots> = xs"
    by simp
  finally show ?thesis .
qed

lemma strip_decompose:
  "\<exists>pre post. s = pre @ strip s @ post \<and> list_all isspace pre \<and> list_all isspace post"
proof -
  let ?d = "dropWhile isspace s"
  let ?pre = "takeWhile isspace s"
  let ?post = "rev (takeWhile isspace (rev ?d))"
  have d: "?d = strip s @ ?post"
    unfolding strip_def by (rule rev_dropWhile_takeWhile [symmetric])
  have "s = ?pre @ ?d" by simp
  with d have "s = ?pre @ strip s @ ?post" by simp
  moreover have "list_all isspace ?pre"
    by (simp add: list_all_iff) (meson set_takeWhileD)
  moreover have "list_all isspace ?post"
    by (simp add: list_all_iff) (meson set_takeWhileD)
  ultimately show ?thesis by blast
qed

lemma strip_trimmed: "trimmed (strip s)"
proof (cases "strip s")
  case Nil
  then show ?thesis by (simp add: trimmed_def)
next
  case (Cons c cs)
  let ?d = "dropWhile isspace s"
  let ?r = "dropWhile isspace (rev ?d)"
  have r: "?r \<noteq> []" using Cons by (auto simp add: strip_def)
  then have "\<not> isspace (hd ?r)" by (rule hd_dropWhile)
  moreover have "last (strip s) = hd ?r"
    using r by (simp add: strip_def last_rev)
  ultimately have l: "\<not> isspace (last (strip s))" by simp
  have d: "?d = strip s @ rev (takeWhile isspace (rev ?d))"
    unfolding strip_def by (rule rev_dropWhile_takeWhile [symmetric])
  have "?d \<noteq> []"
  proof
    assume e: "?d = []"
    have "strip s = []" unfolding strip_def e by simp
    with Cons show False by simp
  qed
  then have "\<not> isspace (hd ?d)" by (rule hd_dropWhile)
  moreover have "hd ?d = hd (strip s)"
    using Cons by (subst d) simp
  ultimately have h: "\<not> isspace (hd (strip s))" by simp
  show ?thesis using Cons h l by (simp add: trimmed_def)
qed

lemma join_Cons: "join sep (x # ys) = x @ concat (map (\<lambda>t. sep @ t) ys)"
  by (induction ys arbitrary: x) simp_all

lemma enumerate_positive:
  "0 < k \<Longrightarrow>
   concat (map (\<lambda>(k, t). if k = 0 then t else sep @ t) (enumerate k ts)) =
   concat (map (\<lambda>t. sep @ t) ts)"
  by (induction ts arbitrary: k) simp_all

lemma join_blank_line_separated: "join [10, 10] texts = blank_line_separated texts"
proof (cases texts)
  case Nil
  then show ?thesis by (simp add: blank_line_separated_def)
next
  case (Cons t ts)
  then show ?thesis
    by (simp add: join_Cons blank_line_separated_def enumerate_positive)
qed

section \<open>Properties of the consolidation and of the configuration\<close>

text \<open>
  Claim C6, at the empty list of texts, with a client that answers every call: the
  operation raises nothing, issues one remote call, whose prompt holds an empty combined
  text, and returns the stripped answer. The claim, like the docstring of
  \<^verbatim>\<open>format_to_table\<close>, asks for an error and for no remote call.
\<close>

theorem format_to_table_empty_runs:
  "format_to_table (canned_library (str_of ''| a |'')) (OCRProcessor (Some (str_of ''key''))) []
      (str_of ''llama-3.3-70b-versatile'') [] =
     (Inr (str_of ''| a |''),
      [(\<lparr>kw_groq_api_key = Some (str_of ''key''),
         kw_model_name = str_of ''llama-3.3-70b-versatile'',
         kw_temperature = 0, kw_max_retries = 3\<rparr>,
        [\<lparr>role = str_of ''user'',
          content = Plain (consolidation_prompt_head @ consolidation_prompt_tail)\<rparr>])])"
  by (simp add: format_to_table_def client_args_def canned_library_def invoke_def
      OCRProcessor_def strip_def isspace_def str_of_def)

text \<open>
  Claim C7. For every sequence of texts, the non-empty ones among them, when the client
  is built and the remote model answers \<open>response\<close>: the operation issues exactly one
  call, whose content is the fixed prompt around the texts joined in their order with a
  blank line between them, and returns \<open>response\<close> with the white space at its two ends
  removed and nothing else changed; the answer is not inspected in any other way.
\<close>

theorem format_to_table_joins_and_strips:
  assumes "ChatGroq lib (client_args self model) = None"
    and "answer lib calls (client_args self model)
           [\<lparr>role = str_of ''user'',
             content = Plain (consolidation_prompt_head @ blank_line_separated markdown_runs @
                              consolidation_prompt_tail)\<rparr>] = Inr response"
  shows "format_to_table lib self markdown_runs model calls =
           (Inr (strip response),
            calls @
            [(client_args self model,
              [\<lparr>role = str_of ''user'',
                content = Plain (consolidation_prompt_head @
                                 blank_line_separated markdown_runs @
                                 consolidation_prompt_tail)\<rparr>])]) \<and>
         trimmed (strip response) \<and>
         (\<exists>pre post. response = pre @ strip response @ post \<and>
                      list_all isspace pre \<and> list_all isspace post)"
proof -
  have "format_to_table lib self markdown_runs model calls =
          (Inr (strip response),
           calls @
           [(client_args self model,
             [\<lparr>role = str_of ''user'',
               content = Plain (consolidation_prompt_head @
                                blank_line_separated markdown_runs @
                                consolidation_prompt_tail)\<rparr>])])"
    using assms
    by (simp add: format_to_table_def invoke_def join_blank_line_separated)
  then show ?thesis
    using strip_trimmed [of response] strip_decompose [of response] by simp
qed

text \<open>The instance of C7 at two texts and an answer with white space around a table.\<close>

theorem format_to_table_joins_and_strips_witness:
  "format_to_table (canned_library ([32] @ str_of ''| Ana | 30 | SP |'' @ [10]))
      (OCRProcessor (Some (str_of ''key'')))
      [str_of ''Name: Ana, Age: 30'', str_of ''City: SP'']
      (str_of ''llama-3.3-70b-versatile'') [] =
     (Inr (strip ([32] @ str_of ''| Ana | 30 | SP |'' @ [10])),
      [] @
      [(client_args (OCRProcessor (Some (str_of ''key''))) (str_of ''llama-3.3-70b-versatile''),
        [\<lparr>role = str_of ''user'',
          content = Plain (consolidation_prompt_head @
                           blank_line_separated [str_of ''Name: Ana, Age: 30'', str_of ''City: SP''] @
                           consolidation_prompt_tail)\<rparr>])]) \<and>
   trimmed (strip ([32] @ str_of ''| Ana | 30 | SP |'' @ [10])) \<and>
   (\<exists>pre post. [32] @ str_of ''| Ana | 30 | SP |'' @ [10] =
                   pre @ strip ([32] @ str_of ''| Ana | 30 | SP |'' @ [10]) @ post \<and>
                list_all isspace pre \<and> list_all isspace post)"
  using format_to_table_joins_and_strips
    [of "canned_library ([32] @ str_of ''| Ana | 30 | SP |'' @ [10])"
        "OCRProcessor (Some (str_of ''key''))" "str_of ''llama-3.3-70b-versatile''"
        "[]" "[str_of ''Name: Ana, Age: 30'', str_of ''City: SP'']"
        "[32] @ str_of ''| Ana | 30 | SP |'' @ [10]"]
  by (simp add: canned_library_def)

text \<open>The values the instance computes.\<close>

lemma consolidation_instance_values:
  "strip ([32] @ str_of ''| Ana | 30 | SP |'' @ [10]) = str_of ''| Ana | 30 | SP |''"
  "blank_line_separated [str_of ''Name: Ana, Age: 30'', str_of ''City: SP''] =
     str_of ''Name: Ana, Age: 30'' @ [10, 10] @ str_of ''City: SP''"
  by (simp_all add: strip_def isspace_def str_of_def blank_line_separated_def)

lemma refused_client:
  assumes "ChatGroq lib (client_args self model) = Some e"
  shows "ocr lib pil self img model calls = (Inl e, calls)"
    and "format_to_table lib self markdown_runs model calls = (Inl e, calls)"
  using assms by (simp_all add: ocr_def format_to_table_def)

lemma refused_pipeline:
  assumes "ChatGroq lib (client_args self (str_of ''llama-3.2-90b-vision-preview'')) = Some e"
    and "ChatGroq lib (client_args self (str_of ''llama-3.3-70b-versatile'')) = Some e'"
  shows "\<exists>e''. process_stripes lib pil self stripes calls = (Inl e'', calls)"
proof (cases stripes)
  case Nil
  have "format_to_table lib self [] (str_of ''llama-3.3-70b-versatile'') calls =
          (Inl e', calls)"
    using assms(2) by (rule refused_client(2))
  then show ?thesis
    using Nil by (simp add: process_stripes_def)
next
  case (Cons stripe rest)
  have "ocr lib pil self stripe (str_of ''llama-3.2-90b-vision-preview'') calls =
          (Inl e, calls)"
    using assms(1) by (rule refused_client(1))
  then show ?thesis
    using Cons by (simp add: process_stripes_def)
qed

text \<open>
  Claim C9. When the credential is absent from the process environment at startup (and
  from the \<^verbatim>\<open>.env\<close> file the settings module loads into it), the system fails before any
  remote call is attempted: the processor built at startup holds no key, and, the
  constructor of the remote client refusing an absent key as that of \<^verbatim>\<open>langchain_groq\<close>
  does, every OCR, every consolidation and every run of the pipeline ends with an error
  and leaves the list of issued calls as it was.
\<close>

theorem missing_credential_no_remote_call:
  assumes "env (str_of ''GROQ_API_KEY'') = None"
    and "dotenv (str_of ''GROQ_API_KEY'') = None"
    and "\<And>groq_llm. kw_groq_api_key groq_llm = None \<Longrightarrow> ChatGroq lib groq_llm \<noteq> None"
  shows "groq_api_key (startup dotenv env) = None \<and>
         (\<exists>e. ocr lib pil (startup dotenv env) img model calls = (Inl e, calls)) \<and>
         (\<exists>e. format_to_table lib (startup dotenv env) markdown_runs model calls =
                (Inl e, calls)) \<and>
         (\<exists>e. process_stripes lib pil (startup dotenv env) stripes calls = (Inl e, calls))"
proof -
  let ?self = "startup dotenv env"
  have key: "groq_api_key ?self = None"
    using assms(1,2)
    by (simp add: startup_def OCRProcessor_def GROQ_API_KEY_def getenv_def load_dotenv_def
        map_add_def)
  have refused: "\<exists>e. ChatGroq lib (client_args ?self m) = Some e" for m
  proof -
    have "kw_groq_api_key (client_args ?self m) = None"
      using key by (simp add: client_args_def)
    then have "ChatGroq lib (client_args ?self m) \<noteq> None"
      by (rule assms(3))
    then show ?thesis
      by (cases "ChatGroq lib (client_args ?self m)") simp_all
  qed
  obtain e where e: "ChatGroq lib (client_args ?self model) = Some e"
    using refused by blast
  obtain e1 where e1:
      "ChatGroq lib (client_args ?self (str_of ''llama-3.2-90b-vision-preview'')) = Some e1"
    using refused by blast
  obtain e2 where e2:
      "ChatGroq lib (client_args ?self (str_of ''llama-3.3-70b-versatile'')) = Some e2"
    using refused by blast
  have "ocr lib pil ?self img model calls = (Inl e, calls)"
    using e by (rule refused_client(1))
  then have o: "\<exists>e. ocr lib pil ?self img model calls = (Inl e, calls)"
    by blast
  have "format_to_table lib ?self markdown_runs model calls = (Inl e, calls)"
    using e by (rule refused_client(2))
  then have t: "\<exists>e. format_to_table lib ?self markdown_runs model calls = (Inl e, calls)"
    by blast
  have p: "\<exists>e. process_stripes lib pil ?self stripes calls = (Inl e, calls)"
    using e1 e2 by (rule refused_pipeline)
  show ?thesis
    using key o t p by simp
qed

text \<open>
  The instance of C9 at an empty environment and a client library that refuses an absent
  key: the OCR of a stripe, the consolidation of a text and the run over two stripes
  each end with the constructor's error and no call.
\<close>

theorem missing_credential_no_remote_call_witness:
  "groq_api_key (startup Map.empty Map.empty) = None \<and>
   ocr (strict_library (str_of ''| a |''))
       \<lparr>convert = (\<lambda>i mode. Inr i), save = (\<lambda>i format quality. Inr [255, 216])\<rparr>
       (startup Map.empty Map.empty) \<lparr>width = 500, height = 200\<rparr> (str_of ''m'') [] =
     (Inl GroqError, []) \<and>
   format_to_table (strict_library (str_of ''| a |'')) (startup Map.empty Map.empty)
       [str_of ''Name: Ana''] (str_of ''m'') [] =
     (Inl GroqError, []) \<and>
   process_stripes (strict_library (str_of ''| a |''))
       \<lparr>convert = (\<lambda>i mode. Inr i), save = (\<lambda>i format quality. Inr [255, 216])\<rparr>
       (startup Map.empty Map.empty)
       [\<lparr>width = 500, height = 220\<rparr>, \<lparr>width = 500, height = 240\<rparr>] [] =
     (Inl GroqError, [])"
  using missing_credential_no_remote_call
    [of Map.empty Map.empty "strict_library (str_of ''| a |'')"
        "\<lparr>convert = (\<lambda>i mode. Inr i), save = (\<lambda>i format quality. Inr [255, 216])\<rparr>"
        "\<lparr>width = 500, height = 200\<rparr>" "str_of ''m''" "[]" "[str_of ''Name: Ana'']"
        "[\<lparr>width = 500, height = 220\<rparr>, \<lparr>width = 500, height = 240\<rparr>]"]
  by (simp add: strict_library_def startup_def OCRProcessor_def GROQ_API_KEY_def getenv_def
      load_dotenv_def client_args_def ocr_def format_to_table_def process_stripes_def)

end
